theory Spec2Isabelle
  imports Complex_Main "HOL-Library.Word" "HOL-Library.Log_Nat"
begin

section \<open>dockmon: the statistics store and the derived metrics of \<open>main.go\<close>\<close>

text \<open>
  The program keeps, per container id, a slice of the statistics snapshots delivered by the
  docker client (\<open>statsData\<close>), trims it to the width of the terminal, and derives
  from it a CPU percentage, a memory percentage and network deltas.  The definitions below
  follow \<open>main.go\<close> function by function.  Go's \<open>int\<close> is taken to be 64 bits
  wide (a 64-bit platform).
\<close>

subsection \<open>Run-time panics\<close>

text \<open>
  A Go run-time panic is never recovered in this program (there is no \<open>recover\<close>), so it
  ends the process.  Every operation that can panic returns \<open>Inl\<close> of the panic.
\<close>

datatype panic = IndexOutOfRange | SliceBoundsOutOfRange | IntegerDivideByZero

text \<open>\<open>xs[i]\<close> on a slice.\<close>

definition index :: "'a list \<Rightarrow> int \<Rightarrow> panic + 'a" where
  "index xs i = (if 0 \<le> i \<and> i < int (length xs) then Inr (xs ! nat i) else Inl IndexOutOfRange)"

text \<open>\<open>xs[1:]\<close> on a slice: the low bound 1 must not exceed the length.\<close>

definition slice_from_1 :: "'a list \<Rightarrow> panic + 'a list" where
  "slice_from_1 xs = (if 1 \<le> length xs then Inr (drop 1 xs) else Inl SliceBoundsOutOfRange)"

subsection \<open>The data of the docker client\<close>

text \<open>
  The structs are those of the client library \<open>github.com/samalba/dockerclient\<close>,
  restricted to the fields that \<open>main.go\<close> reads.  All counters are \<open>uint64\<close>;
  \<open>Read\<close> is a \<open>time.Time\<close>, of which the program only uses \<open>==\<close>.
\<close>

type_synonym uint64 = "64 word"
type_synonym time = int

record NetworkStats =
  RxBytes :: uint64
  TxBytes :: uint64

record CpuUsage =
  TotalUsage :: uint64
  PercpuUsage :: "uint64 list"

record CpuStats =
  CpuUsage :: CpuUsage
  SystemUsage :: uint64

record MemoryStats =
  Usage :: uint64
  Limit :: uint64

record Stats =
  Read :: time
  NetworkStats :: NetworkStats
  CpuStats :: CpuStats
  MemoryStats :: MemoryStats

record Container =
  Id :: string
  Names :: "string list"

subsection \<open>\<open>float64\<close> arithmetic\<close>

text \<open>
  A finite \<open>float64\<close> is represented by the rational number it denotes.  Every operation
  computes the exact result and rounds it to the nearest number with a 53-bit significand,
  ties to the even significand (IEEE 754 binary64, the rounding Go prescribes).  The values
  that occur in \<open>cpuPercent\<close> are zero or lie between \<open>2^-64\<close> and \<open>2^64 * 2^63 * 100\<close>,
  inside the exponent range of binary64, so neither overflow nor subnormal numbers arise and
  the exponent is left unbounded.
\<close>

definition round_half_even :: "rat \<Rightarrow> int" where
  "round_half_even s =
     (let f = \<lfloor>s\<rfloor>; d = s - of_int f
      in if d < 1 / 2 then f else if 1 / 2 < d then f + 1 else if even f then f else f + 1)"

text \<open>\<open>ilog2 x\<close> is the exponent \<open>k\<close> with \<open>2^k \<le> x < 2^(k+1)\<close>, for positive \<open>x\<close>.\<close>

definition ilog2 :: "rat \<Rightarrow> int" where
  "ilog2 x =
     (if 1 \<le> x then bitlen \<lfloor>x\<rfloor> - 1 else - bitlen (\<lceil>1 / x\<rceil> - 1))"

definition f64_round :: "rat \<Rightarrow> rat" where
  "f64_round x =
     (if x = 0 then 0
      else let e = ilog2 \<bar>x\<bar> - 52
           in of_int (round_half_even (x / (2 powi e))) * (2 powi e))"

definition f64_of_uint64 :: "uint64 \<Rightarrow> rat" where
  "f64_of_uint64 w = f64_round (of_int (uint w))"

definition f64_of_int :: "int \<Rightarrow> rat" where
  "f64_of_int n = f64_round (of_int n)"

definition f64_div :: "rat \<Rightarrow> rat \<Rightarrow> rat" where
  "f64_div x y = f64_round (x / y)"

definition f64_mul :: "rat \<Rightarrow> rat \<Rightarrow> rat" where
  "f64_mul x y = f64_round (x * y)"

text \<open>
  \<open>int(p)\<close> for a \<open>float64\<close>: the fraction is discarded (truncation towards zero).  When
  the result does not fit the 64-bit \<open>int\<close>, the Go specification leaves the value to
  the implementation; it is the parameter \<open>impl\<close> here.
\<close>

definition int_of_f64 :: "int \<Rightarrow> rat \<Rightarrow> int" where
  "int_of_f64 impl p =
     (let t = (if 0 \<le> p then \<lfloor>p\<rfloor> else \<lceil>p\<rceil>)
      in if - (2 ^ 63) \<le> t \<and> t < 2 ^ 63 then t else impl)"

subsection \<open>The metric derivers\<close>

text \<open>
  \<open>cpuPercent(stats, idx)\<close>: both deltas are subtractions of \<open>uint64\<close> counters (they
  wrap), converted to \<open>float64\<close>.
\<close>

definition cpuPercent :: "int \<Rightarrow> Stats list \<Rightarrow> int \<Rightarrow> panic + int" where
  "cpuPercent impl stats idx =
     (case index stats idx of
        Inl e \<Rightarrow> Inl e
      | Inr mystat \<Rightarrow>
          (case index stats (idx - 1) of
             Inl e \<Rightarrow> Inl e
           | Inr prevstat \<Rightarrow>
               (let cpudelta = f64_of_uint64 (TotalUsage (CpuUsage (CpuStats mystat))
                                 - TotalUsage (CpuUsage (CpuStats prevstat)));
                    sysdelta = f64_of_uint64 (SystemUsage (CpuStats mystat)
                                 - SystemUsage (CpuStats prevstat));
                    p = (if 0 < sysdelta \<and> 0 < cpudelta
                         then f64_mul
                                (f64_mul (f64_div cpudelta sysdelta)
                                   (f64_of_int (int (length (PercpuUsage (CpuUsage (CpuStats mystat)))))))
                                100
                         else 0)
                in Inr (int_of_f64 impl p))))"

text \<open>\<open>genCPUSystemUsage\<close>: the loop \<open>for i := range stats\<close>, with the result slice \<open>res\<close>.\<close>

fun genCPUSystemUsage_loop :: "int \<Rightarrow> Stats list \<Rightarrow> nat list \<Rightarrow> int list \<Rightarrow> panic + int list" where
  "genCPUSystemUsage_loop impl stats [] res = Inr res"
| "genCPUSystemUsage_loop impl stats (i # is) res =
     (if 0 < i
      then (case cpuPercent impl stats (int i) of
              Inl e \<Rightarrow> Inl e
            | Inr v \<Rightarrow> genCPUSystemUsage_loop impl stats is (res @ [v]))
      else genCPUSystemUsage_loop impl stats is res)"

definition genCPUSystemUsage :: "int \<Rightarrow> Stats list \<Rightarrow> panic + int list" where
  "genCPUSystemUsage impl stats = genCPUSystemUsage_loop impl stats [0..<length stats] []"

text \<open>\<open>rxDiffer\<close>, \<open>txDiffer\<close>: \<open>int(cur.RxBytes - prev.RxBytes)\<close>, a wrapping \<open>uint64\<close>
  subtraction read as a signed 64-bit integer.\<close>

definition rxDiffer :: "NetworkStats \<Rightarrow> NetworkStats \<Rightarrow> int" where
  "rxDiffer cur prev = sint (RxBytes cur - RxBytes prev)"

definition txDiffer :: "NetworkStats \<Rightarrow> NetworkStats \<Rightarrow> int" where
  "txDiffer cur prev = sint (TxBytes cur - TxBytes prev)"

fun genNetwork_loop ::
  "Stats list \<Rightarrow> (NetworkStats \<Rightarrow> NetworkStats \<Rightarrow> int) \<Rightarrow> nat list \<Rightarrow> int list \<Rightarrow> panic + int list" where
  "genNetwork_loop stats differ [] res = Inr res"
| "genNetwork_loop stats differ (i # is) res =
     (if 0 < i
      then (case index stats (int i) of
              Inl e \<Rightarrow> Inl e
            | Inr stat1 \<Rightarrow>
                (case index stats (int i - 1) of
                   Inl e \<Rightarrow> Inl e
                 | Inr stat2 \<Rightarrow>
                     genNetwork_loop stats differ is
                       (res @ [differ (NetworkStats stat1) (NetworkStats stat2)])))
      else genNetwork_loop stats differ is res)"

definition genNetwork :: "Stats list \<Rightarrow> (NetworkStats \<Rightarrow> NetworkStats \<Rightarrow> int) \<Rightarrow> panic + int list" where
  "genNetwork stats differ = genNetwork_loop stats differ [0..<length stats] []"

subsection \<open>Formatting\<close>

text \<open>\<open>%d\<close> and \<open>%2d\<close> of \<open>fmt.Sprintf\<close>, for an \<open>int\<close>.\<close>

fun digits :: "nat \<Rightarrow> string" where
  "digits n =
     (if n < 10 then [''0123456789'' ! n] else digits (n div 10) @ [''0123456789'' ! (n mod 10)])"

declare digits.simps [simp del]

definition fmt_d :: "int \<Rightarrow> string" where
  "fmt_d i = (if i < 0 then CHR ''-'' # digits (nat (- i)) else digits (nat i))"

definition fmt_2d :: "int \<Rightarrow> string" where
  "fmt_2d i = (let s = fmt_d i in replicate (2 - length s) CHR '' '' @ s)"

text \<open>\<open>genContainerListName\<close>: \<open>c.Names[0]\<close> panics when the container has no name.\<close>

definition genContainerListName :: "int \<Rightarrow> Container \<Rightarrow> int \<Rightarrow> panic + string" where
  "genContainerListName idx c maxlen =
     (case index (Names c) 0 of
        Inl e \<Rightarrow> Inl e
      | Inr name \<Rightarrow>
          (let s = ''['' @ fmt_d idx @ ''] '' @ name @ '':'' @ Id c
           in if maxlen < int (length s)
              then (if 0 \<le> maxlen - 3 then Inr (take (nat (maxlen - 3)) s @ ''...'')
                    else Inl SliceBoundsOutOfRange)
              else Inr s))"

subsection \<open>The global state\<close>

text \<open>
  The package variables of \<open>main.go\<close>, the width of the terminal grid
  (\<open>ui.Body.Width\<close>) and the fields that the drawers set on their widgets.  The mutex
  \<open>lock\<close> serialises \<open>dockerStats\<close> against the end of \<open>containerList\<close>; each function
  below is one atomic step.
\<close>

record state =
  allcontainers :: "Container list"
  containerDetailsIndex :: int
  containerDetailsID :: string
  statsData :: "string \<rightharpoonup> Stats list"
  Body_Width :: int
  list_Items :: "string list"
  list_Height :: int
  details_Items :: "string list"
  details_Height :: int
  details_BorderLabel :: string
  mem_DataLabels :: "string list"
  mem_Data :: "int list"
  mem_max :: int

text \<open>\<open>dat, _ := statsData[id]\<close>: a missing key reads as the nil slice.\<close>

definition lookup :: "(string \<rightharpoonup> Stats list) \<Rightarrow> string \<Rightarrow> Stats list" where
  "lookup m cid = (case m cid of None \<Rightarrow> [] | Some dat \<Rightarrow> dat)"

subsection \<open>Ingestion: \<open>dockerStats\<close>\<close>

definition dockerStats :: "string \<Rightarrow> Stats \<Rightarrow> state \<Rightarrow> panic + state" where
  "dockerStats cid stats st =
     (let dat = lookup (statsData st) cid
      in case (if Body_Width st - 2 < int (length dat) then slice_from_1 dat else Inr dat) of
           Inl e \<Rightarrow> Inl e
         | Inr dat' \<Rightarrow>
             if 0 < length dat' \<and> Read (last dat') = Read stats
             then Inr st
             else Inr (st\<lparr>statsData := (statsData st)(cid \<mapsto> dat' @ [stats])\<rparr>))"

text \<open>The callback invoked once per delivered snapshot, in order of delivery.\<close>

fun deliver :: "string \<Rightarrow> Stats list \<Rightarrow> state \<Rightarrow> panic + state" where
  "deliver cid [] st = Inr st"
| "deliver cid (stats # rest) st =
     (case dockerStats cid stats st of Inl e \<Rightarrow> Inl e | Inr st' \<Rightarrow> deliver cid rest st')"

subsection \<open>Reconciliation: the drawer of \<open>containerList\<close>\<close>

datatype dc_call = StartMonitorStats string | StopAllMonitorStats

text \<open>
  The loop \<open>for i, c := range containers\<close>.  It updates the global \<open>containerDetailsID\<close>
  and the locals \<open>conts\<close> and \<open>newstats\<close>, and calls the docker client.
\<close>

fun containerList_loop ::
  "nat \<Rightarrow> Container list \<Rightarrow> state \<Rightarrow> string list \<Rightarrow> (string \<rightharpoonup> Stats list) \<Rightarrow> dc_call list
     \<Rightarrow> panic + (state \<times> string list \<times> (string \<rightharpoonup> Stats list) \<times> dc_call list)" where
  "containerList_loop i [] st conts newstats calls = Inr (st, conts, newstats, calls)"
| "containerList_loop i (c # cs) st conts newstats calls =
     (case genContainerListName (int i) c 30 of
        Inl e \<Rightarrow> Inl e
      | Inr name \<Rightarrow>
          (let st' = (if int i = containerDetailsIndex st then st\<lparr>containerDetailsID := Id c\<rparr> else st)
           in case statsData st (Id c) of
                Some stat \<Rightarrow>
                  containerList_loop (Suc i) cs st' (conts @ [name]) (newstats(Id c \<mapsto> stat)) calls
              | None \<Rightarrow>
                  containerList_loop (Suc i) cs st' (conts @ [name]) newstats
                    (calls @ [StartMonitorStats (Id c)])))"

text \<open>The argument \<open>listing\<close> is the result of \<open>dc.ListContainers\<close>: an error or the containers.\<close>

definition containerList :: "string + Container list \<Rightarrow> state \<Rightarrow> panic + (state \<times> dc_call list)" where
  "containerList listing st =
     (case listing of
        Inl err \<Rightarrow> Inr (st\<lparr>containerDetailsID := []\<rparr>, [StopAllMonitorStats])
      | Inr containers \<Rightarrow>
          (case containerList_loop 0 containers st [] Map.empty [] of
             Inl e \<Rightarrow> Inl e
           | Inr (st1, conts, newstats, calls) \<Rightarrow>
               (let st2 = st1\<lparr>statsData := newstats, allcontainers := containers\<rparr>;
                    st3 = (if length containers = 0 then st2\<lparr>containerDetailsID := []\<rparr> else st2);
                    calls' = (if length containers = 0 then calls @ [StopAllMonitorStats] else calls)
                in Inr (st3\<lparr>list_Items := conts, list_Height := int (length conts) + 2\<rparr>, calls'))))"

subsection \<open>The details panel: the drawer of \<open>containerDetails\<close>\<close>

text \<open>
  \<open>InspectContainer\<close> is the call to the docker client.  The text lines built from the
  inspected container (\<open>Name:\<close>, \<open>Image:\<close>, ...) and its name are functions of the
  container information; they are the parameters \<open>lines\<close> and \<open>name\<close>.
\<close>

definition containerDetails ::
  "(string \<Rightarrow> 'e + 'ci) \<Rightarrow> ('ci \<Rightarrow> string list) \<Rightarrow> ('ci \<Rightarrow> string) \<Rightarrow> state \<Rightarrow> state" where
  "containerDetails InspectContainer lines name st =
     (if containerDetailsID st = [] then st\<lparr>details_Height := 2\<rparr>
      else case InspectContainer (containerDetailsID st) of
             Inl err \<Rightarrow> st
           | Inr ci \<Rightarrow>
               st\<lparr>details_Items := lines ci,
                  details_Height := int (length (lines ci)) + 2,
                  details_BorderLabel := ''Details: '' @ name ci\<rparr>)"

subsection \<open>Memory percent: the drawer of \<open>containerPercentMemory\<close>\<close>

definition findMaxInt :: "int list \<Rightarrow> int" where
  "findMaxInt vals =
     (if length vals < 1 then 0
      else fold (\<lambda>v mx. if mx < v then v else mx) vals (vals ! 0))"

text \<open>
  The loop \<open>for i, c := range allcontainers\<close>.  \<open>100 * memused / memlim\<close> is \<open>uint64\<close>
  arithmetic: the product wraps and the division panics on a zero divisor; \<open>int(...)\<close>
  reads the quotient as a signed 64-bit integer.
\<close>

fun containerPercentMemory_loop ::
  "state \<Rightarrow> nat \<Rightarrow> Container list \<Rightarrow> string list \<Rightarrow> int list \<Rightarrow> panic + (string list \<times> int list)" where
  "containerPercentMemory_loop st i [] labels used = Inr (labels, used)"
| "containerPercentMemory_loop st i (c # cs) labels used =
     (let labels' = labels @ [''['' @ fmt_2d (int i) @ '']''];
          dat = lookup (statsData st) (Id c)
      in if 1 < length dat
         then (case index dat (int (length dat) - 1) of
                 Inl e \<Rightarrow> Inl e
               | Inr lst \<Rightarrow>
                   (let memused = Usage (MemoryStats lst);
                        memlim = Limit (MemoryStats lst)
                    in if memlim = 0 then Inl IntegerDivideByZero
                       else containerPercentMemory_loop st (Suc i) cs labels'
                              (used @ [sint ((100 * memused) div memlim)])))
         else containerPercentMemory_loop st (Suc i) cs labels' used)"

text \<open>
  \<open>mem.SetMax(mx * 3)\<close>: the product is one of Go's 64-bit \<open>int\<close>, it wraps.
\<close>

definition containerPercentMemory :: "state \<Rightarrow> panic + state" where
  "containerPercentMemory st =
     (case containerPercentMemory_loop st 0 (allcontainers st) [] [] of
        Inl e \<Rightarrow> Inl e
      | Inr (labels, used) \<Rightarrow>
          (let mx = findMaxInt used
           in Inr (st\<lparr>mem_DataLabels := labels, mem_Data := used,
                      mem_max := (if mx < 30 then signed_take_bit 63 (mx * 3) else 100)\<rparr>)))"

subsection \<open>The formula of the specification, in exact arithmetic\<close>

text \<open>
  \<open>(cpuDelta / sysDelta) * onlineCpuCount * 100\<close>, truncated towards zero, computed on the
  rational numbers (this is the specification's formula, not the program's).
\<close>

definition cpuPercent_exact :: "int \<Rightarrow> int \<Rightarrow> int \<Rightarrow> int" where
  "cpuPercent_exact cpuDelta sysDelta onlineCpuCount =
     \<lfloor>(rat_of_int cpuDelta / rat_of_int sysDelta) * rat_of_int onlineCpuCount * 100\<rfloor>"

subsection \<open>Example data\<close>

text \<open>A snapshot with the given time stamp, CPU counters, number of CPUs, memory gauge and
  network counters.\<close>

definition snapshot ::
  "time \<Rightarrow> uint64 \<Rightarrow> uint64 \<Rightarrow> nat \<Rightarrow> uint64 \<Rightarrow> uint64 \<Rightarrow> uint64 \<Rightarrow> uint64 \<Rightarrow> Stats" where
  "snapshot t tot sys ncpu usage limit rx tx =
     \<lparr>Read = t,
      NetworkStats = \<lparr>RxBytes = rx, TxBytes = tx\<rparr>,
      CpuStats = \<lparr>CpuUsage = \<lparr>TotalUsage = tot, PercpuUsage = replicate ncpu 0\<rparr>,
                  SystemUsage = sys\<rparr>,
      MemoryStats = \<lparr>Usage = usage, Limit = limit\<rparr>\<rparr>"

text \<open>The program's state at start-up, on a terminal of the given width.\<close>

definition initial :: "int \<Rightarrow> state" where
  "initial w =
     \<lparr>allcontainers = [], containerDetailsIndex = 0, containerDetailsID = [],
      statsData = Map.empty, Body_Width = w, list_Items = [], list_Height = 0,
      details_Items = [], details_Height = 0, details_BorderLabel = [],
      mem_DataLabels = [], mem_Data = [], mem_max = 100\<rparr>"

definition container :: "string \<Rightarrow> Container" where
  "container cid = \<lparr>Id = cid, Names = [CHR ''/'' # cid]\<rparr>"

text \<open>What is stored for a container after a step that may have panicked.\<close>

definition stored :: "panic + state \<Rightarrow> string \<Rightarrow> panic + Stats list" where
  "stored r cid = (case r of Inl e \<Rightarrow> Inl e | Inr st \<Rightarrow> Inr (lookup (statsData st) cid))"

text \<open>Three snapshots of one container, one second apart.\<close>

definition series_example :: "Stats list" where
  "series_example =
     [snapshot 1 100 1000 2 512 1024 1000 10,
      snapshot 2 150 1200 2 512 1024 900 30,
      snapshot 3 150 1300 2 512 1024 1500 30]"

text \<open>A CPU counter that went back from 200 to 100 while the system counter advanced.\<close>

definition cpu_reset_example :: "Stats list" where
  "cpu_reset_example =
     [snapshot 1 200 1000 1 0 0 0 0,
      snapshot 2 100 (1000 + 2 ^ 30) 1 0 0 0 0]"

text \<open>A container that used 29 of 100 ticks of one CPU.\<close>

definition cpu_29_example :: "Stats list" where
  "cpu_29_example =
     [snapshot 1 1000 5000 1 0 0 0 0,
      snapshot 2 1029 5100 1 0 0 0 0]"

text \<open>A receive counter that advanced by \<open>2^63\<close> bytes between two snapshots.\<close>

definition rx_wrap_example :: "Stats list" where
  "rx_wrap_example =
     [snapshot 1 0 0 1 0 0 0 0,
      snapshot 2 0 0 1 0 0 (2 ^ 63) 0]"

text \<open>Two different snapshots that carry the same time stamp.\<close>

definition dup_first :: Stats where
  "dup_first = snapshot 7 100 1000 1 512 1024 0 0"

definition dup_second :: Stats where
  "dup_second = snapshot 7 160 1100 1 600 1024 0 0"

text \<open>A terminal two columns wide on which container \<open>B\<close> has one stored snapshot.\<close>

definition narrow_full :: state where
  "narrow_full = (initial 2)\<lparr>statsData := [''B'' \<mapsto> [dup_first]]\<rparr>"





text \<open>Container \<open>A\<close> is listed and its latest snapshot reports the memory limit 0.\<close>

definition no_limit :: state where
  "no_limit =
     (initial 80)\<lparr>allcontainers := [container ''A''],
                   statsData := [''A'' \<mapsto> [snapshot 1 0 0 1 400 1024 0 0,
                                             snapshot 2 0 0 1 512 0 0 0]]\<rparr>"

text \<open>The same container with the limit 1024 and the usage 512.\<close>

definition half_used :: state where
  "half_used =
     (initial 80)\<lparr>allcontainers := [container ''A''],
                   statsData := [''A'' \<mapsto> [snapshot 1 0 0 1 400 1024 0 0,
                                             snapshot 2 0 0 1 512 1024 0 0]]\<rparr>"

text \<open>Two reconciliations in a row with the same list of containers.\<close>

definition reconcile_twice :: "Container list \<Rightarrow> state \<Rightarrow> panic + (state \<times> dc_call list)" where
  "reconcile_twice cs st =
     (case containerList (Inr cs) st of
        Inl e \<Rightarrow> Inl e
      | Inr (st1, calls) \<Rightarrow> containerList (Inr cs) st1)"

text \<open>Histories are stored for the containers \<open>A\<close> and \<open>Z\<close>.\<close>

definition tracked :: state where
  "tracked = (initial 80)\<lparr>statsData := [''A'' \<mapsto> [dup_first], ''Z'' \<mapsto> [dup_second]]\<rparr>"

text \<open>
  The operator pressed \<open>2\<close> while the containers \<open>A\<close>, \<open>B\<close>, \<open>C\<close> were listed: the third
  one, \<open>C\<close>, is selected for the details panel.
\<close>

definition third_selected :: state where
  "third_selected =
     (initial 80)\<lparr>allcontainers := [container ''A'', container ''B'', container ''C''],
                   containerDetailsIndex := 2, containerDetailsID := ''C''\<rparr>"

text \<open>The selected container id after a reconciliation that may have panicked.\<close>

definition details_id :: "panic + (state \<times> dc_call list) \<Rightarrow> panic + string" where
  "details_id r = (case r of Inl e \<Rightarrow> Inl e | Inr (st, calls) \<Rightarrow> Inr (containerDetailsID st))"

section \<open>Properties\<close>

subsection \<open>Rounding to \<open>float64\<close> keeps the sign\<close>

lemma ilog2_lower: "0 < x \<Longrightarrow> 2 powi (ilog2 x) \<le> x"
proof (cases "1 \<le> x")
  case True
  assume "0 < x"
  let ?m = "\<lfloor>x\<rfloor>"
  from True have m: "0 < ?m" by simp
  from bitlen_bounds [OF m] have b: "2 ^ nat (bitlen ?m - 1) \<le> ?m" by simp
  have "1 \<le> bitlen ?m" using m bitlen_eq_zero_iff [of ?m] bitlen_nonneg [of ?m] by linarith
  then have "(2::rat) powi (bitlen ?m - 1) = 2 ^ nat (bitlen ?m - 1)"
    by (simp add: power_int_def)
  also have "\<dots> = of_int (2 ^ nat (bitlen ?m - 1))" by simp
  also have "\<dots> \<le> of_int ?m" using b by (simp only: of_int_le_iff)
  also have "\<dots> \<le> x" by simp
  finally show ?thesis using True by (simp add: ilog2_def)
next
  case False
  assume x: "0 < x"
  let ?m = "\<lceil>1 / x\<rceil> - 1"
  from False x have "1 < 1 / x" by simp
  then have m: "0 < ?m" by linarith
  from bitlen_bounds [OF m] have b: "?m < 2 ^ nat (bitlen ?m)" by simp
  then have "\<lceil>1 / x\<rceil> \<le> 2 ^ nat (bitlen ?m)" by linarith
  then have "1 / x \<le> of_int (2 ^ nat (bitlen ?m))" by (simp only: ceiling_le_iff)
  then have "1 / x \<le> 2 ^ nat (bitlen ?m)" by simp
  then have "1 \<le> 2 ^ nat (bitlen ?m) * x" using x by (simp add: field_simps)
  then have "1 / 2 ^ nat (bitlen ?m) \<le> x" by (simp add: field_simps)
  moreover have "(2::rat) powi (- bitlen ?m) = 1 / 2 ^ nat (bitlen ?m)"
    using bitlen_nonneg [of ?m] by (simp add: power_int_def field_simps)
  ultimately show ?thesis using False by (simp add: ilog2_def)
qed

lemma round_half_even_ge: "\<lfloor>s\<rfloor> \<le> round_half_even s"
  by (simp add: round_half_even_def Let_def)

lemma f64_round_pos: assumes "0 < x" shows "0 < f64_round x"
proof -
  let ?e = "ilog2 x - 52"
  have "(2::rat) powi ?e \<le> 2 powi (ilog2 x)"
    by (rule power_int_increasing) simp_all
  also have "\<dots> \<le> x" by (rule ilog2_lower [OF assms])
  finally have "1 \<le> x / 2 powi ?e" by (simp add: field_simps)
  then have "1 \<le> \<lfloor>x / 2 powi ?e\<rfloor>" by simp
  then have "0 < round_half_even (x / 2 powi ?e)"
    using round_half_even_ge [of "x / 2 powi ?e"] by linarith
  then have "0 < (of_int (round_half_even (x / 2 powi ?e)) :: rat) * 2 powi ?e"
    by (simp add: zero_less_mult_iff)
  then show ?thesis using assms by (simp add: f64_round_def Let_def)
qed

lemma f64_round_0 [simp]: "f64_round 0 = 0"
  by (simp add: f64_round_def)

lemma f64_round_nonneg: "0 \<le> x \<Longrightarrow> 0 \<le> f64_round x"
  using f64_round_pos [of x] by (cases "x = 0") (auto simp: less_le)

subsection \<open>The rounding is that of binary64\<close>

lemma ilog2_upper: "0 < x \<Longrightarrow> x < 2 powi (ilog2 x + 1)"
proof (cases "1 \<le> x")
  case True
  assume "0 < x"
  let ?m = "\<lfloor>x\<rfloor>"
  from True have m: "0 < ?m" by simp
  from bitlen_bounds [OF m] have b: "?m < 2 ^ nat (bitlen ?m)" by simp
  then have "?m + 1 \<le> 2 ^ nat (bitlen ?m)" by simp
  then have "rat_of_int (?m + 1) \<le> rat_of_int (2 ^ nat (bitlen ?m))"
    by (simp only: of_int_le_iff)
  moreover have "x < rat_of_int (?m + 1)" by linarith
  ultimately have "x < 2 ^ nat (bitlen ?m)" by simp
  moreover have "(2::rat) powi (bitlen ?m) = 2 ^ nat (bitlen ?m)"
    using bitlen_nonneg [of ?m] by (simp add: power_int_def)
  ultimately show ?thesis using True by (simp add: ilog2_def)
next
  case False
  assume x: "0 < x"
  let ?m = "\<lceil>1 / x\<rceil> - 1"
  from False x have "1 < 1 / x" by simp
  then have m: "0 < ?m" by linarith
  then have one: "1 \<le> bitlen ?m"
    using bitlen_eq_zero_iff [of ?m] bitlen_nonneg [of ?m] by linarith
  from bitlen_bounds [OF m] have b: "2 ^ nat (bitlen ?m - 1) \<le> ?m" by simp
  then have "rat_of_int (2 ^ nat (bitlen ?m - 1)) \<le> rat_of_int ?m"
    by (simp only: of_int_le_iff)
  moreover have "rat_of_int ?m < 1 / x" by linarith
  ultimately have "2 ^ nat (bitlen ?m - 1) < 1 / x" by simp
  then have "2 ^ nat (bitlen ?m - 1) * x < 1" using x by (simp add: field_simps)
  then have "x < 1 / 2 ^ nat (bitlen ?m - 1)" by (simp add: field_simps)
  moreover have "(2::rat) powi (- bitlen ?m + 1) = 1 / 2 ^ nat (bitlen ?m - 1)"
  proof -
    have "- bitlen ?m + 1 = - int (nat (bitlen ?m - 1))" using one by simp
    then show ?thesis by (simp only: power_int_minus power_int_of_nat) (simp add: field_simps)
  qed
  ultimately show ?thesis using False by (simp add: ilog2_def)
qed

lemma round_half_even_error: "\<bar>rat_of_int (round_half_even s) - s\<bar> \<le> 1 / 2"
proof -
  define f where "f = \<lfloor>s\<rfloor>"
  define d where "d = s - rat_of_int f"
  have bounds: "0 \<le> d" "d < 1" unfolding d_def f_def by linarith+
  have s: "s = rat_of_int f + d" by (simp add: d_def)
  have r: "round_half_even s =
             (if d < 1 / 2 then f else if 1 / 2 < d then f + 1 else if even f then f else f + 1)"
    unfolding round_half_even_def Let_def d_def f_def ..
  have "\<bar>rat_of_int (round_half_even s) - (rat_of_int f + d)\<bar> \<le> 1 / 2"
    unfolding r using bounds by (auto simp add: abs_if)
  then show ?thesis by (simp only: s [symmetric])
qed

lemma round_half_even_of_int [simp]: "round_half_even (rat_of_int m) = m"
  by (simp add: round_half_even_def)

text \<open>The rounded value is within half a unit in the last place of the exact one.\<close>

lemma f64_round_error:
  assumes "0 < x"
  shows "\<bar>f64_round x - x\<bar> \<le> 2 powi (ilog2 x - 53)"
proof -
  let ?e = "ilog2 x - 52"
  let ?s = "x / 2 powi ?e"
  have pos: "(0::rat) < 2 powi ?e" by simp
  have "f64_round x - x = (rat_of_int (round_half_even ?s) - ?s) * 2 powi ?e"
    using assms by (simp add: f64_round_def Let_def algebra_simps)
  then have "\<bar>f64_round x - x\<bar> = \<bar>rat_of_int (round_half_even ?s) - ?s\<bar> * 2 powi ?e"
    by (simp add: abs_mult)
  also have "\<dots> \<le> 1 / 2 * 2 powi ?e"
    using round_half_even_error [of ?s] pos by (intro mult_right_mono) simp_all
  also have "\<dots> = 2 powi (ilog2 x - 53)"
  proof -
    have "(2::rat) powi ((ilog2 x - 53) + 1) = 2 powi (ilog2 x - 53) * 2"
      by (rule power_int_add_1) simp
    moreover have "ilog2 x - 53 + 1 = ilog2 x - 52" by simp
    ultimately have "(2::rat) powi (ilog2 x - 52) = 2 powi (ilog2 x - 53) * 2"
      by (simp only:)
    then show ?thesis by simp
  qed
  finally show ?thesis .
qed

text \<open>The significand of the rounded value has at most 53 bits.\<close>

lemma f64_round_significand:
  assumes "0 < x"
  shows "\<exists>m. f64_round x = rat_of_int m * 2 powi (ilog2 x - 52) \<and> 2 ^ 52 \<le> m \<and> m \<le> 2 ^ 53"
proof -
  let ?e = "ilog2 x - 52"
  let ?s = "x / 2 powi ?e"
  have split: "(2::rat) powi (ilog2 x) = 2 powi ?e * 2 ^ 52"
    and split1: "(2::rat) powi (ilog2 x + 1) = 2 powi ?e * 2 ^ 53"
    by (simp_all add: power_int_diff power_int_add)
  have "2 powi ?e * 2 ^ 52 \<le> x" using ilog2_lower [OF assms] unfolding split .
  then have lo: "2 ^ 52 \<le> ?s" by (simp add: field_simps)
  have "x < 2 powi ?e * 2 ^ 53" using ilog2_upper [OF assms] unfolding split1 .
  then have hi: "?s < 2 ^ 53" by (simp add: field_simps)
  from lo have "rat_of_int (2 ^ 52) \<le> ?s" by simp
  then have "2 ^ 52 \<le> \<lfloor>?s\<rfloor>" by (simp only: le_floor_iff)
  then have m_lo: "2 ^ 52 \<le> round_half_even ?s"
    using round_half_even_ge [of ?s] by linarith
  from hi have "?s < rat_of_int (2 ^ 53)" by simp
  then have "\<lfloor>?s\<rfloor> < 2 ^ 53" by (simp only: floor_less_iff)
  moreover have "round_half_even ?s \<le> \<lfloor>?s\<rfloor> + 1"
    by (simp add: round_half_even_def Let_def)
  ultimately have m_hi: "round_half_even ?s \<le> 2 ^ 53" by linarith
  have "f64_round x = rat_of_int (round_half_even ?s) * 2 powi ?e"
    using assms by (simp add: f64_round_def Let_def)
  with m_lo m_hi show ?thesis by blast
qed

text \<open>Integers of at most 53 bits convert without rounding.\<close>

lemma f64_of_int_exact:
  assumes "0 \<le> n" "n < 2 ^ 53"
  shows "f64_of_int n = rat_of_int n"
proof (cases "n = 0")
  case True
  then show ?thesis by (simp add: f64_of_int_def)
next
  case False
  with assms have pos: "0 < n" by simp
  then have one: "1 \<le> rat_of_int n" by simp
  have "bitlen n \<le> 53"
    using assms(2) by (simp add: bitlen_le_iff_power)
  then have e: "ilog2 (rat_of_int n) - 52 \<le> 0"
    using one by (simp add: ilog2_def)
  define k where "k = nat (- (ilog2 (rat_of_int n) - 52))"
  with e have ek: "ilog2 (rat_of_int n) - 52 = - int k" by simp
  have p: "(2::rat) powi (- int k) = 1 / 2 ^ k"
    by (simp add: power_int_minus field_simps)
  have "rat_of_int n / (2 powi (- int k)) = rat_of_int (n * 2 ^ k)"
    by (simp add: p)
  then have "round_half_even (rat_of_int n / (2 powi (- int k))) = n * 2 ^ k"
    by (simp only: round_half_even_of_int)
  then show ?thesis
    using pos by (simp add: f64_of_int_def f64_round_def Let_def ek p)
qed

subsection \<open>Indexing inside the bounds\<close>

lemma index_in_range: "i < length xs \<Longrightarrow> index xs (int i) = Inr (xs ! i)"
  by (simp add: index_def)

lemma index_pred: "0 < i \<Longrightarrow> i < length xs \<Longrightarrow> index xs (int i - 1) = Inr (xs ! (i - 1))"
  by (simp add: index_def nat_diff_distrib')

lemma cpuPercent_total:
  assumes "0 < i" "i < length stats"
  shows "\<exists>v. cpuPercent impl stats (int i) = Inr v"
  using assms by (simp add: cpuPercent_def index_in_range index_pred Let_def)

lemma cpuPercent_pair:
  assumes "0 < i" "i < length stats"
  shows "cpuPercent impl stats (int i) = cpuPercent impl [stats ! (i - 1), stats ! i] 1"
proof -
  have "index [stats ! (i - 1), stats ! i] 1 = Inr (stats ! i)"
    and "index [stats ! (i - 1), stats ! i] (1 - 1) = Inr (stats ! (i - 1))"
    by (simp_all add: index_def)
  with assms show ?thesis
    by (simp add: cpuPercent_def index_in_range index_pred Let_def)
qed

lemma filter_pos_upt: "filter ((<) 0) [0..<n] = [1..<n]"
  by (induction n) auto

lemma genCPUSystemUsage_loop_series:
  assumes "\<forall>i\<in>set is. i < length stats"
  shows "\<exists>vs. genCPUSystemUsage_loop impl stats is res = Inr (res @ vs) \<and>
           list_all2 (\<lambda>i v. cpuPercent impl stats (int i) = Inr v) (filter ((<) 0) is) vs"
  using assms
proof (induction "is" arbitrary: res)
  case Nil
  then show ?case by simp
next
  case (Cons i "is")
  show ?case
  proof (cases "0 < i")
    case True
    with Cons.prems obtain v where v: "cpuPercent impl stats (int i) = Inr v"
      using cpuPercent_total [of i stats impl] by auto
    from Cons.IH [of "res @ [v]"] Cons.prems obtain vs where
      "genCPUSystemUsage_loop impl stats is (res @ [v]) = Inr ((res @ [v]) @ vs)"
      "list_all2 (\<lambda>i v. cpuPercent impl stats (int i) = Inr v) (filter ((<) 0) is) vs"
      by auto
    with True v show ?thesis by (intro exI [of _ "v # vs"]) simp
  next
    case False
    with Cons.IH [of res] Cons.prems show ?thesis by auto
  qed
qed

lemma genNetwork_loop_series:
  assumes "\<forall>i\<in>set is. i < length stats"
  shows "genNetwork_loop stats differ is res =
           Inr (res @ map (\<lambda>i. differ (NetworkStats (stats ! i)) (NetworkStats (stats ! (i - 1))))
                      (filter ((<) 0) is))"
  using assms
  by (induction "is" arbitrary: res) (simp_all add: index_in_range index_pred)

lemma genNetwork_series:
  "genNetwork stats differ =
     Inr (map (\<lambda>i. differ (NetworkStats (stats ! i)) (NetworkStats (stats ! (i - 1)))) [1..<length stats])"
  by (simp add: genNetwork_def genNetwork_loop_series filter_pos_upt)

lemma genCPUSystemUsage_series:
  "\<exists>vs. genCPUSystemUsage impl stats = Inr vs \<and>
         list_all2 (\<lambda>i v. cpuPercent impl stats (int i) = Inr v) [1..<length stats] vs"
  using genCPUSystemUsage_loop_series [of "[0..<length stats]" stats impl "[]"]
  by (simp add: genCPUSystemUsage_def filter_pos_upt)

subsection \<open>CPU percent\<close>

lemma f64_of_uint64_pos: "0 < f64_of_uint64 w \<longleftrightarrow> w \<noteq> 0"
proof
  assume "0 < f64_of_uint64 w"
  then show "w \<noteq> 0" by (auto simp: f64_of_uint64_def)
next
  assume "w \<noteq> 0"
  then have "0 < uint w" by (simp add: word_neq_0_conv word_less_def)
  then have "0 < rat_of_int (uint w)" by (simp only: of_int_0_less_iff)
  then show "0 < f64_of_uint64 w"
    unfolding f64_of_uint64_def by (rule f64_round_pos)
qed

lemma int_of_f64_0 [simp]: "int_of_f64 impl 0 = 0"
  by (simp add: int_of_f64_def)

lemma int_of_f64_in_range: "0 \<le> p \<Longrightarrow> p < 2 ^ 63 \<Longrightarrow> int_of_f64 impl p = \<lfloor>p\<rfloor>"
proof -
  assume p: "0 \<le> p" "p < 2 ^ 63"
  then have "0 \<le> \<lfloor>p\<rfloor>" by simp
  moreover from p have "\<lfloor>p\<rfloor> < 2 ^ 63" by (simp add: floor_less_iff)
  ultimately show ?thesis using p by (simp add: int_of_f64_def)
qed

lemma uint64_sub_no_wrap: "uint b \<le> uint a \<Longrightarrow> uint (a - b) = uint a - uint (b :: uint64)"
  using uint_sub_lem [of b a] by simp

lemma f64_mul_nonneg: "0 \<le> x \<Longrightarrow> 0 \<le> y \<Longrightarrow> 0 \<le> f64_mul x y"
  unfolding f64_mul_def by (rule f64_round_nonneg) simp

lemma f64_div_nonneg: "0 \<le> x \<Longrightarrow> 0 \<le> y \<Longrightarrow> 0 \<le> f64_div x y"
  unfolding f64_div_def by (rule f64_round_nonneg) simp

lemma f64_of_int_nonneg: "0 \<le> n \<Longrightarrow> 0 \<le> f64_of_int n"
  unfolding f64_of_int_def by (rule f64_round_nonneg) simp

lemma cpuPercent_zero_delta:
  assumes "0 < idx" "idx < length stats"
    and "TotalUsage (CpuUsage (CpuStats (stats ! idx))) = TotalUsage (CpuUsage (CpuStats (stats ! (idx - 1))))
       \<or> SystemUsage (CpuStats (stats ! idx)) = SystemUsage (CpuStats (stats ! (idx - 1)))"
  shows "cpuPercent impl stats (int idx) = Inr 0"
  using assms
  by (auto simp add: cpuPercent_def index_in_range index_pred Let_def f64_of_uint64_pos)

text \<open>
  Claim C3, as the program computes it.  For an adjacent pair of snapshots whose CPU and
  system counters both advanced (\<open>cpuDelta > 0\<close>, \<open>sysDelta > 0\<close>),
  \<open>cpuPercent\<close> returns \<open>(cpuDelta / sysDelta) * onlineCpuCount * 100\<close> evaluated in
  \<open>float64\<close> arithmetic (the deltas and the count converted to \<open>float64\<close>, the division
  and each multiplication rounded), truncated towards zero, provided that value is below
  \<open>2^63\<close>.  \<open>onlineCpuCount\<close> is the length of \<open>PercpuUsage\<close> of the later snapshot.
\<close>

theorem cpuPercent_positive_deltas:
  assumes idx: "0 < idx" "idx < length stats"
    and prev: "prev = CpuStats (stats ! (idx - 1))"
    and cur: "cur = CpuStats (stats ! idx)"
    and cd: "cpuDelta = uint (TotalUsage (CpuUsage cur)) - uint (TotalUsage (CpuUsage prev))"
            "0 < cpuDelta"
    and sd: "sysDelta = uint (SystemUsage cur) - uint (SystemUsage prev)" "0 < sysDelta"
    and p: "p = f64_mul (f64_mul (f64_div (f64_of_int cpuDelta) (f64_of_int sysDelta))
                   (f64_of_int (int (length (PercpuUsage (CpuUsage cur)))))) 100"
    and range: "p < 2 ^ 63"
  shows "cpuPercent impl stats (int idx) = Inr \<lfloor>p\<rfloor>"
proof -
  have c: "f64_of_uint64 (TotalUsage (CpuUsage cur) - TotalUsage (CpuUsage prev)) = f64_of_int cpuDelta"
    using cd by (simp add: f64_of_uint64_def f64_of_int_def uint64_sub_no_wrap)
  have s: "f64_of_uint64 (SystemUsage cur - SystemUsage prev) = f64_of_int sysDelta"
    using sd by (simp add: f64_of_uint64_def f64_of_int_def uint64_sub_no_wrap)
  have "0 < rat_of_int cpuDelta" and "0 < rat_of_int sysDelta"
    using cd(2) sd(2) by (simp_all only: of_int_0_less_iff)
  then have cpos: "0 < f64_of_int cpuDelta" and spos: "0 < f64_of_int sysDelta"
    unfolding f64_of_int_def by (simp_all only: f64_round_pos)
  have "0 \<le> p"
    unfolding p using cd(2) sd(2)
    by (intro f64_mul_nonneg f64_div_nonneg f64_of_int_nonneg) simp_all
  then have "int_of_f64 impl p = \<lfloor>p\<rfloor>" using range by (rule int_of_f64_in_range)
  moreover have "CpuStats (stats ! (idx - Suc 0)) = prev" and "CpuStats (stats ! idx) = cur"
    using prev cur by simp_all
  ultimately show ?thesis
    using idx c s cpos spos
    by (simp add: cpuPercent_def index_in_range index_pred Let_def p [symmetric])
qed

text \<open>The example of the specification: deltas 50 and 200 on two CPUs give 50.\<close>

theorem cpuPercent_positive_deltas_witness:
  "cpuPercent 0 series_example 1 = Inr 50"
proof -
  let ?p = "f64_mul (f64_mul (f64_div (f64_of_int 50) (f64_of_int 200)) (f64_of_int 2)) 100"
  have p: "?p = 50" by code_simp
  have "cpuPercent 0 series_example (int 1) = Inr \<lfloor>?p\<rfloor>"
  proof (rule cpuPercent_positive_deltas [where prev = "CpuStats (series_example ! 0)"
          and cur = "CpuStats (series_example ! 1)" and cpuDelta = 50 and sysDelta = 200])
    show "?p < 2 ^ 63" by (simp add: p)
  qed (simp_all add: series_example_def snapshot_def)
  then show ?thesis by (simp add: p)
qed

text \<open>
  Claim C2 at a counter reset.  The CPU counter went back from 200 to 100 while the system
  counter advanced by \<open>2^30\<close>: the \<open>uint64\<close> subtraction wraps to \<open>2^64 - 100\<close>, the
  guard \<open>cpudelta > 0.0\<close> holds, and the result is not 0.
\<close>

theorem cpuPercent_counter_reset:
  "uint (TotalUsage (CpuUsage (CpuStats (cpu_reset_example ! 1))))
     - uint (TotalUsage (CpuUsage (CpuStats (cpu_reset_example ! 0)))) = - 100 \<and>
   cpuPercent 0 cpu_reset_example 1 = Inr 1717986918400"
  by code_simp

text \<open>
  Claim C3 as stated fails in exact arithmetic: with \<open>cpuDelta = 29\<close>, \<open>sysDelta = 100\<close> and
  one CPU the formula is 29, and the program returns 28 (the \<open>float64\<close> product
  \<open>0.29 * 100\<close> is just below 29).
\<close>

theorem cpuPercent_not_exact:
  "cpuPercent 0 cpu_29_example 1 = Inr 28 \<and>
   cpuPercent_exact
     (uint (TotalUsage (CpuUsage (CpuStats (cpu_29_example ! 1))))
        - uint (TotalUsage (CpuUsage (CpuStats (cpu_29_example ! 0)))))
     (uint (SystemUsage (CpuStats (cpu_29_example ! 1)))
        - uint (SystemUsage (CpuStats (cpu_29_example ! 0))))
     (int (length (PercpuUsage (CpuUsage (CpuStats (cpu_29_example ! 1)))))) = 29"
  by code_simp

subsection \<open>Series generation\<close>

text \<open>
  Claim C7.  For a buffer of \<open>N\<close> snapshots, \<open>genCPUSystemUsage\<close> and \<open>genNetwork\<close>
  (with \<open>rxDiffer\<close> and with \<open>txDiffer\<close>) return without a panic a series of exactly
  \<open>N - 1\<close> values, the \<open>k\<close>-th of which is derived from the adjacent pair of snapshots
  \<open>k\<close> and \<open>k + 1\<close>; for \<open>N = 0\<close> and \<open>N = 1\<close> the series is empty.
\<close>

theorem series_generation:
  "\<exists>cpu rx tx.
      genCPUSystemUsage impl stats = Inr cpu \<and> genNetwork stats rxDiffer = Inr rx \<and>
      genNetwork stats txDiffer = Inr tx \<and>
      length cpu = length stats - 1 \<and> length rx = length stats - 1 \<and>
      length tx = length stats - 1 \<and>
      (\<forall>k < length stats - 1.
         cpuPercent impl [stats ! k, stats ! Suc k] 1 = Inr (cpu ! k) \<and>
         rx ! k = rxDiffer (NetworkStats (stats ! Suc k)) (NetworkStats (stats ! k)) \<and>
         tx ! k = txDiffer (NetworkStats (stats ! Suc k)) (NetworkStats (stats ! k)))"
proof -
  from genCPUSystemUsage_series [of impl stats] obtain cpu where
    cpu: "genCPUSystemUsage impl stats = Inr cpu"
    and rel: "list_all2 (\<lambda>i v. cpuPercent impl stats (int i) = Inr v) [1..<length stats] cpu"
    by blast
  from rel have len: "length cpu = length stats - 1"
    by (auto dest: list_all2_lengthD)
  have pairs: "cpuPercent impl [stats ! k, stats ! Suc k] 1 = Inr (cpu ! k)"
    if "k < length stats - 1" for k
  proof -
    from that have "cpuPercent impl stats (int ([1..<length stats] ! k)) = Inr (cpu ! k)"
      using list_all2_nthD [OF rel, of k] by simp
    moreover from that have "[1..<length stats] ! k = Suc k" by simp
    ultimately show ?thesis
      using that cpuPercent_pair [of "Suc k" stats impl] by simp
  qed
  show ?thesis
    using cpu len pairs by (simp add: genNetwork_series)
qed

text \<open>Three snapshots give two values per series.\<close>

theorem series_generation_witness:
  "\<exists>cpu rx tx.
      genCPUSystemUsage 0 series_example = Inr cpu \<and>
      genNetwork series_example rxDiffer = Inr rx \<and>
      genNetwork series_example txDiffer = Inr tx \<and>
      length cpu = 2 \<and> length rx = 2 \<and> length tx = 2 \<and>
      cpu ! 0 = 50 \<and> rx ! 0 = - 100 \<and> tx ! 0 = 20"
proof -
  have pair: "cpuPercent 0 [series_example ! 0, series_example ! Suc 0] 1 = Inr 50"
    by code_simp
  have rx: "rxDiffer (NetworkStats (series_example ! Suc 0)) (NetworkStats (series_example ! 0)) = - 100"
    and tx: "txDiffer (NetworkStats (series_example ! Suc 0)) (NetworkStats (series_example ! 0)) = 20"
    by code_simp+
  have len: "length series_example - 1 = 2" by (simp add: series_example_def)
  from series_generation [of 0 series_example] obtain cpu rx tx where
    gen: "genCPUSystemUsage 0 series_example = Inr cpu"
      "genNetwork series_example rxDiffer = Inr rx"
      "genNetwork series_example txDiffer = Inr tx"
      "length cpu = 2" "length rx = 2" "length tx = 2"
    and each: "\<forall>k<2. cpuPercent 0 [series_example ! k, series_example ! Suc k] 1 = Inr (cpu ! k) \<and>
         rx ! k = rxDiffer (NetworkStats (series_example ! Suc k)) (NetworkStats (series_example ! k)) \<and>
         tx ! k = txDiffer (NetworkStats (series_example ! Suc k)) (NetworkStats (series_example ! k))"
    unfolding len by blast
  from each have "cpuPercent 0 [series_example ! 0, series_example ! Suc 0] 1 = Inr (cpu ! 0)"
    and "rx ! 0 = rxDiffer (NetworkStats (series_example ! Suc 0)) (NetworkStats (series_example ! 0))"
    and "tx ! 0 = txDiffer (NetworkStats (series_example ! Suc 0)) (NetworkStats (series_example ! 0))"
    by simp_all
  then have "cpu ! 0 = 50" "rx ! 0 = - 100" "tx ! 0 = 20"
    by (simp_all add: pair rx tx)
  with gen show ?thesis by blast
qed

subsection \<open>Network deltas\<close>

lemma sint_sub_in_range:
  fixes a b :: uint64
  assumes "- (2 ^ 63) \<le> uint a - uint b" "uint a - uint b < 2 ^ 63"
  shows "sint (a - b) = uint a - uint b"
proof -
  have "sint (a - b) = signed_take_bit 63 (uint (a - b))"
    by (simp add: sint_uint)
  also have "uint (a - b) = take_bit 64 (uint a - uint b)"
    by (simp add: uint_word_ariths take_bit_eq_mod)
  also have "signed_take_bit 63 (take_bit 64 (uint a - uint b)) = signed_take_bit 63 (uint a - uint b)"
    by (simp add: signed_take_bit_take_bit)
  also have "\<dots> = uint a - uint b"
    using assms by (simp add: signed_take_bit_int_eq_self)
  finally show ?thesis .
qed

text \<open>
  Claim C6, as the program computes it.  For an adjacent pair of snapshots the network
  delta of a direction is \<open>cur.bytes - prev.bytes\<close>, negative when the counter went back,
  without clamping, whenever that difference fits a signed 64-bit integer (it always does
  when both counters are below \<open>2^63\<close>).
\<close>

theorem network_delta_in_range:
  assumes k: "Suc k < length stats"
    and prev: "prev = NetworkStats (stats ! k)"
    and cur: "cur = NetworkStats (stats ! Suc k)"
  shows "\<exists>rx tx.
          genNetwork stats rxDiffer = Inr rx \<and> genNetwork stats txDiffer = Inr tx \<and>
          (- (2 ^ 63) \<le> uint (RxBytes cur) - uint (RxBytes prev) \<and>
           uint (RxBytes cur) - uint (RxBytes prev) < 2 ^ 63 \<longrightarrow>
             rx ! k = uint (RxBytes cur) - uint (RxBytes prev)) \<and>
          (- (2 ^ 63) \<le> uint (TxBytes cur) - uint (TxBytes prev) \<and>
           uint (TxBytes cur) - uint (TxBytes prev) < 2 ^ 63 \<longrightarrow>
             tx ! k = uint (TxBytes cur) - uint (TxBytes prev))"
proof -
  let ?series = "\<lambda>differ :: NetworkStats \<Rightarrow> NetworkStats \<Rightarrow> int.
    map (\<lambda>i. differ (NetworkStats (stats ! i)) (NetworkStats (stats ! (i - 1)))) [1..<length stats]"
  have kth: "[1..<length stats] ! k = Suc k"
    using k nth_upt [of 1 k "length stats"] by simp
  have len: "k < length [1..<length stats]"
    using k by simp
  have el: "?series differ ! k = differ cur prev" for differ
    unfolding nth_map [OF len] kth prev cur by simp
  have rx: "?series rxDiffer ! k = uint (RxBytes cur) - uint (RxBytes prev)"
    if "- (2 ^ 63) \<le> uint (RxBytes cur) - uint (RxBytes prev)"
      and "uint (RxBytes cur) - uint (RxBytes prev) < 2 ^ 63"
  proof -
    have "?series rxDiffer ! k = rxDiffer cur prev" by (rule el)
    also have "\<dots> = uint (RxBytes cur) - uint (RxBytes prev)"
      unfolding rxDiffer_def using that by (rule sint_sub_in_range)
    finally show ?thesis .
  qed
  have tx: "?series txDiffer ! k = uint (TxBytes cur) - uint (TxBytes prev)"
    if "- (2 ^ 63) \<le> uint (TxBytes cur) - uint (TxBytes prev)"
      and "uint (TxBytes cur) - uint (TxBytes prev) < 2 ^ 63"
  proof -
    have "?series txDiffer ! k = txDiffer cur prev" by (rule el)
    also have "\<dots> = uint (TxBytes cur) - uint (TxBytes prev)"
      unfolding txDiffer_def using that by (rule sint_sub_in_range)
    finally show ?thesis .
  qed
  have "genNetwork stats rxDiffer = Inr (?series rxDiffer)"
    and "genNetwork stats txDiffer = Inr (?series txDiffer)"
    by (rule genNetwork_series)+
  with rx tx show ?thesis by blast
qed

text \<open>The example of the specification: from 1000 to 900 received bytes the delta is \<open>-100\<close>.\<close>

theorem network_delta_in_range_witness:
  "\<exists>rx tx. genNetwork series_example rxDiffer = Inr rx \<and>
     genNetwork series_example txDiffer = Inr tx \<and> rx ! 0 = - 100 \<and> tx ! 0 = 20"
proof -
  have "Suc 0 < length series_example" by (simp add: series_example_def)
  from network_delta_in_range [OF this refl refl] show ?thesis
    by (simp add: series_example_def snapshot_def)
qed

text \<open>
  Claim C6 as stated fails outside that range: a receive counter that advances from 0 to
  \<open>2^63\<close> yields the delta \<open>-2^63\<close>.
\<close>

theorem network_delta_wraps:
  "genNetwork rx_wrap_example rxDiffer = Inr [- 9223372036854775808] \<and>
   uint (RxBytes (NetworkStats (rx_wrap_example ! 1)))
     - uint (RxBytes (NetworkStats (rx_wrap_example ! 0))) = 9223372036854775808"
  by code_simp


subsection \<open>The history store\<close>

lemma lookup_upd [simp]: "lookup (m(cid \<mapsto> dat)) cid = dat"
  by (simp add: lookup_def)

lemma lookup_None [simp]: "m cid = None \<Longrightarrow> lookup m cid = []"
  by (simp add: lookup_def)

lemma last_drop_1: "2 \<le> length xs \<Longrightarrow> last (drop 1 xs) = last xs"
  by (cases xs) (auto simp: drop_Suc)

lemma dockerStats_duplicate_ignored:
  assumes dat: "lookup (statsData st) cid = dat" "dat \<noteq> []"
    and same: "Read (last dat) = Read stats"
    and room: "3 \<le> Body_Width st \<or> 2 \<le> length dat"
  shows "dockerStats cid stats st = Inr st"
proof (cases "Body_Width st - 2 < int (length dat)")
  case True
  with room have two: "2 \<le> length dat" by auto
  then have "drop 1 dat \<noteq> []" and "last (drop 1 dat) = last dat"
    by (simp_all add: last_drop_1)
  with True two dat same show ?thesis
    by (simp add: dockerStats_def slice_from_1_def Let_def)
next
  case False
  with dat same show ?thesis
    by (simp add: dockerStats_def Let_def)
qed





text \<open>On a terminal narrower than two columns the first snapshot of a container panics.\<close>

lemma dockerStats_panics_without_room:
  assumes "Body_Width st < 2" and "statsData st cid = None"
  shows "dockerStats cid stats st = Inl SliceBoundsOutOfRange"
  using assms by (simp add: dockerStats_def slice_from_1_def Let_def)

lemma duplicate_after_first:
  assumes "3 \<le> Body_Width st" and "statsData st cid = None" and "Read s2 = Read s1"
  shows "stored (deliver cid [s1, s2] st) cid = Inr [s1]"
proof -
  let ?st1 = "st\<lparr>statsData := (statsData st)(cid \<mapsto> [s1])\<rparr>"
  from assms(1,2) have first: "dockerStats cid s1 st = Inr ?st1"
    by (simp add: dockerStats_def Let_def)
  have "dockerStats cid s2 ?st1 = Inr ?st1"
    by (rule dockerStats_duplicate_ignored [where dat = "[s1]"]) (simp_all add: assms)
  with first show ?thesis by (simp add: stored_def)
qed




text \<open>
  Claim C4 on a terminal two columns wide (capacity 1).  The trim runs before the duplicate
  check and empties the one-entry buffer, so the check \<open>len(dat) > 0\<close> fails and the second
  of two snapshots with the same time stamp is stored in place of the first.
\<close>

theorem duplicate_replaces_on_narrow_terminal:
  "stored (deliver ''A'' [dup_first, dup_second] (initial 2)) ''A'' = Inr [dup_second] \<and>
   Read dup_second = Read dup_first \<and> dup_second \<noteq> dup_first"
  by (simp add: stored_def dockerStats_def slice_from_1_def initial_def lookup_def
      dup_first_def dup_second_def snapshot_def)

text \<open>
  Claim C10 on the same terminal: the last stored snapshot of container \<open>B\<close> has the time
  stamp of the incoming one, the buffer is full, and the call changes the stored history.
\<close>

theorem duplicate_changes_full_buffer:
  "lookup (statsData narrow_full) ''B'' = [dup_first] \<and>
   Read (last [dup_first]) = Read dup_second \<and>
   stored (dockerStats ''B'' dup_second narrow_full) ''B'' = Inr [dup_second] \<and>
   [dup_second] \<noteq> [dup_first]"
  by (simp add: stored_def dockerStats_def slice_from_1_def narrow_full_def initial_def lookup_def
      dup_first_def dup_second_def snapshot_def)

subsection \<open>Memory percent\<close>

text \<open>
  With a non-zero limit and a usage below \<open>2^63 / 100\<close> bytes the value appended for a
  container is \<open>usage * 100 / limit\<close>, truncated.
\<close>

lemma sint_quotient:
  fixes usage limit :: uint64
  assumes "limit \<noteq> 0" "100 * uint usage < 2 ^ 63"
  shows "sint ((100 * usage) div limit) = (100 * uint usage) div uint limit"
proof -
  have u: "uint (100 * usage) = 100 * uint usage"
    using assms(2) by (simp add: uint_word_ariths take_bit_eq_mod)
  have d: "uint ((100 * usage) div limit) = (100 * uint usage) div uint limit"
    by (simp add: uint_div u)
  from assms(1) have "1 \<le> uint limit"
    using word_neq_0_conv [of limit] by (simp add: word_less_def)
  then have "(100 * uint usage) div uint limit \<le> (100 * uint usage) div 1"
    by (intro zdiv_mono2) simp_all
  then have "uint ((100 * usage) div limit) < 2 ^ 63" using assms(2) d by simp
  moreover have "- (2 ^ 63) \<le> uint ((100 * usage) div limit)"
  proof -
    have "- (2 ^ 63) \<le> (0::int)" by simp
    also have "0 \<le> uint ((100 * usage) div limit)" by simp
    finally show ?thesis .
  qed
  ultimately have "signed_take_bit 63 (uint ((100 * usage) div limit)) = uint ((100 * usage) div limit)"
    by (intro signed_take_bit_int_eq_self) simp_all
  then have "sint ((100 * usage) div limit) = uint ((100 * usage) div limit)"
    by (simp add: sint_uint)
  with d show ?thesis by simp
qed

lemma containerPercentMemory_loop_step:
  assumes dat: "lookup (statsData st) (Id c) = dat" "1 < length dat"
    and lim: "Limit (MemoryStats (last dat)) \<noteq> 0"
    and small: "100 * uint (Usage (MemoryStats (last dat))) < 2 ^ 63"
  shows "containerPercentMemory_loop st i (c # cs) labels used =
           containerPercentMemory_loop st (Suc i) cs (labels @ [''['' @ fmt_2d (int i) @ '']''])
             (used @ [(100 * uint (Usage (MemoryStats (last dat))))
                        div uint (Limit (MemoryStats (last dat)))])"
proof -
  from dat(2) have "dat \<noteq> []" by auto
  with dat(2) have "index dat (int (length dat) - 1) = Inr (last dat)"
    by (simp add: index_def last_conv_nth nat_diff_distrib')
  with assms show ?thesis
    by (simp add: Let_def sint_quotient)
qed

text \<open>
  Claim C1 at the memory limit 0.  The drawer divides by the limit without a guard:
  the division panics and the process ends; no error value is reported.
\<close>

theorem memory_percent_limit_zero:
  "containerPercentMemory no_limit = Inl IntegerDivideByZero"
  by (simp add: containerPercentMemory_def no_limit_def initial_def container_def snapshot_def
      lookup_def index_def)

lemma memory_percent_half:
  "map_sum id mem_Data (containerPercentMemory half_used) = Inr [50]"
  by (simp add: containerPercentMemory_def half_used_def initial_def container_def snapshot_def
      lookup_def index_def findMaxInt_def Let_def)

subsection \<open>Reconciliation\<close>

lemma genContainerListName_named:
  assumes "Names c \<noteq> []"
  shows "\<exists>s. genContainerListName j c 30 = Inr s"
  using assms by (simp add: genContainerListName_def index_def Let_def)

lemma containerList_loop_result:
  assumes "\<forall>c\<in>set cs. Names c \<noteq> []"
  shows "containerList_loop i cs st conts newstats calls =
     Inr (st\<lparr>containerDetailsID :=
              (if int i \<le> containerDetailsIndex st \<and> containerDetailsIndex st < int i + int (length cs)
               then Id (cs ! nat (containerDetailsIndex st - int i))
               else containerDetailsID st)\<rparr>,
          conts @ map (\<lambda>(j, c). case genContainerListName (int j) c 30 of Inr s \<Rightarrow> s | Inl e \<Rightarrow> [])
                    (zip [i..<i + length cs] cs),
          (\<lambda>k. if k \<in> Id ` set cs \<and> statsData st k \<noteq> None then statsData st k else newstats k),
          calls @ map (\<lambda>c. StartMonitorStats (Id c)) (filter (\<lambda>c. statsData st (Id c) = None) cs))"
  using assms
proof (induction cs arbitrary: i st conts newstats calls)
  case Nil
  then show ?case by auto
next
  case (Cons c cs)
  from Cons.prems obtain s where s: "genContainerListName (int i) c 30 = Inr s"
    using genContainerListName_named [of c "int i"] by auto
  have upt: "[i..<i + length (c # cs)] = i # [Suc i..<Suc i + length cs]"
    by (simp add: upt_rec)
  have names: "\<forall>c\<in>set cs. Names c \<noteq> []" using Cons.prems by simp
  have suc: "nat (1 + int i) = Suc i" by simp
  show ?case
    unfolding upt
    by (auto simp add: s Cons.IH [OF names] Let_def fun_eq_iff nth_Cons' nat_diff_distrib' suc
        split: option.splits)
qed

lemma containerList_result:
  assumes "\<forall>c\<in>set cs. Names c \<noteq> []"
  shows "containerList (Inr cs) st =
     Inr (st\<lparr>containerDetailsID :=
              (if cs = [] then []
               else if 0 \<le> containerDetailsIndex st \<and> containerDetailsIndex st < int (length cs)
               then Id (cs ! nat (containerDetailsIndex st))
               else containerDetailsID st),
             statsData := statsData st |` (Id ` set cs),
             allcontainers := cs,
             list_Items := map (\<lambda>(j, c). case genContainerListName (int j) c 30 of Inr s \<Rightarrow> s | Inl e \<Rightarrow> [])
                             (zip [0..<length cs] cs),
             list_Height := int (length cs) + 2\<rparr>,
          map (\<lambda>c. StartMonitorStats (Id c)) (filter (\<lambda>c. statsData st (Id c) = None) cs)
            @ (if cs = [] then [StopAllMonitorStats] else []))"
proof -
  have m: "(\<lambda>k. if k \<in> Id ` set cs \<and> (\<exists>y. statsData st k = Some y) then statsData st k else None)
             = statsData st |` (Id ` set cs)"
    by (auto simp: restrict_map_def fun_eq_iff)
  show ?thesis
    unfolding containerList_def
    by (simp add: containerList_loop_result [OF assms] m Let_def)
qed

text \<open>
  Claim C8, as the program behaves.  When every listed container has a name, a
  reconciliation with the list \<open>cs\<close> succeeds, and a second one with the same list returns
  the very same state (store, list of containers, selected id, widget) and the same calls
  to the docker client.  The store then holds exactly the histories of the listed ids that
  had one before, unchanged, and none for any other id: a listed id without a history gets
  no entry from the reconciliation.
\<close>

theorem containerList_idempotent:
  assumes "\<forall>c\<in>set cs. Names c \<noteq> []"
  shows "\<exists>st1 calls.
           containerList (Inr cs) st = Inr (st1, calls) \<and>
           containerList (Inr cs) st1 = Inr (st1, calls) \<and>
           statsData st1 = statsData st |` (Id ` set cs)"
proof -
  have r: "(statsData st |` (Id ` set cs)) |` (Id ` set cs) = statsData st |` (Id ` set cs)"
    by simp
  have f: "filter (\<lambda>c. (statsData st |` (Id ` set cs)) (Id c) = None) cs
             = filter (\<lambda>c. statsData st (Id c) = None) cs"
    by (rule filter_cong) (simp_all add: restrict_map_def)
  show ?thesis
    unfolding containerList_result [OF assms]
    by (simp add: r f)
qed

text \<open>With histories for \<open>A\<close> and \<open>Z\<close> and the list \<open>A\<close>, \<open>B\<close>: the history of \<open>A\<close> survives
  unchanged, \<open>Z\<close> is evicted, \<open>B\<close> gets no entry.\<close>

theorem containerList_idempotent_witness:
  "\<exists>st1 calls.
     containerList (Inr [container ''A'', container ''B'']) tracked = Inr (st1, calls) \<and>
     containerList (Inr [container ''A'', container ''B'']) st1 = Inr (st1, calls) \<and>
     statsData st1 ''A'' = Some [dup_first] \<and> statsData st1 ''B'' = None \<and>
     statsData st1 ''Z'' = None"
proof -
  have "\<forall>c\<in>set [container ''A'', container ''B'']. Names c \<noteq> []"
    by (simp add: container_def)
  from containerList_idempotent [OF this, of tracked] show ?thesis
    by (auto simp: tracked_def container_def restrict_map_def)
qed

text \<open>
  Claim C8 as stated fails for ids without a history: after two reconciliations with the
  list \<open>A\<close>, \<open>B\<close> on an empty store there is no history for \<open>A\<close> nor for \<open>B\<close>, and the
  second reconciliation starts a statistics monitor for each of them again.
\<close>

theorem reconcile_creates_no_history:
  "map_sum id (\<lambda>(st2, calls). (statsData st2 ''A'', statsData st2 ''B'', calls))
     (reconcile_twice [container ''A'', container ''B''] (initial 80))
   = Inr (None, None, [StartMonitorStats ''A'', StartMonitorStats ''B''])"
  by code_simp

subsection \<open>Selection for the details panel\<close>

text \<open>An index inside the list selects the container at that position.\<close>

lemma containerList_selects:
  assumes "\<forall>c\<in>set cs. Names c \<noteq> []"
    and "0 \<le> containerDetailsIndex st" "containerDetailsIndex st < int (length cs)"
  shows "\<exists>st1 calls. containerList (Inr cs) st = Inr (st1, calls) \<and>
           containerDetailsID st1 = Id (cs ! nat (containerDetailsIndex st))"
  using assms(2,3) unfolding containerList_result [OF assms(1)] by auto

text \<open>
  Claim C9 at a stale index.  The index 2 selected container \<open>C\<close>; the next reconciliation
  lists only \<open>A\<close> and \<open>B\<close>, so no container is at position 2.  The loop leaves
  \<open>containerDetailsID\<close> as it was, and the details drawer inspects and shows \<open>C\<close>, the
  previously selected container, instead of the empty display.
\<close>

theorem stale_selection_kept:
  "containerDetailsIndex third_selected = 2 \<and>
   details_id (containerList (Inr [container ''A'', container ''B'']) third_selected) = Inr ''C'' \<and>
   (case containerList (Inr [container ''A'', container ''B'']) third_selected of
      Inl e \<Rightarrow> []
    | Inr (st1, calls) \<Rightarrow>
        details_Items (containerDetails (\<lambda>i. Inr i :: unit + string) (\<lambda>ci. [ci]) (\<lambda>ci. ci) st1))
     = [''C'']"
  by code_simp

end
